theory Spec2Isabelle
  imports Main "HOL-Library.Sublist" "HOL-Library.List_Lexorder" "HOL-Library.Char_ord"
begin

section \<open>Strings, constants and formatting\<close>

text \<open>
  A Go \<^verbatim>\<open>string\<close> and a \<^verbatim>\<open>[]byte\<close> are byte sequences: \<^verbatim>\<open>len\<close> counts
  bytes and \<^verbatim>\<open>s[:n]\<close> slices bytes. Both are modelled by \<^typ>\<open>string\<close>, whose characters
  are 8-bit. An \<^verbatim>\<open>error\<close> value is modelled by the text that \<^verbatim>\<open>%v\<close> prints for it;
  a \<^verbatim>\<open>nil\<close> error is \<^term>\<open>None\<close>.
\<close>

type_synonym bytes = string
type_synonym row = "string list"
type_synonym table = "row list"

definition maxDiffChanges :: nat where
  "maxDiffChanges = 10"

definition maxDiffChars :: nat where
  "maxDiffChars = 500"

definition zeroHash :: string where
  "zeroHash = ''0000000000000000000000000000000000000000000000000000000000000000''"

text \<open>The newline byte, and the UTF-8 encoding of the arrow U+2192 used in "Modified" lines.\<close>

definition nl :: string where
  "nl = [CHR 0x0A]"

definition arrow :: string where
  "arrow = [CHR 0xE2, CHR 0x86, CHR 0x92]"

text \<open>\<^verbatim>\<open>%d\<close> of a non-negative \<^verbatim>\<open>int\<close>: its decimal digits.\<close>

definition digit :: "nat \<Rightarrow> char" where
  "digit d = ''0123456789'' ! d"

function itoa :: "nat \<Rightarrow> string" where
  "itoa n = (if n < 10 then [digit n] else itoa (n div 10) @ [digit (n mod 10)])"
  by pat_completeness auto
termination
  by (relation "measure (\<lambda>n. n)") auto

declare itoa.simps [simp del]

text \<open>\<^verbatim>\<open>%d\<close> of an \<^verbatim>\<open>int\<close> that may be negative (the HTTP status code).\<close>

definition fmtInt :: "int \<Rightarrow> string" where
  "fmtInt i = (if i < 0 then ''-'' @ itoa (nat (- i)) else itoa (nat i))"

text \<open>\<^verbatim>\<open>strings.Join(row, ",")\<close>.\<close>

fun joinComma :: "string list \<Rightarrow> string" where
  "joinComma [] = []"
| "joinComma [x] = x"
| "joinComma (x # y # ys) = x @ '','' @ joinComma (y # ys)"

text \<open>
  \<^verbatim>\<open>strings.Split(s, "\n")\<close>: the pieces between newline bytes; the result always has
  at least one element (the whole string when it holds no newline).
\<close>

fun splitNl :: "string \<Rightarrow> string list" where
  "splitNl [] = [[]]"
| "splitNl (c # cs) =
     (if c = CHR 0x0A then [] # splitNl cs
      else (case splitNl cs of [] \<Rightarrow> [[c]] | l # ls \<Rightarrow> (c # l) # ls))"

section \<open>The change counters and the report builder\<close>

text \<open>
  The three counters of a differ and its \<^verbatim>\<open>strings.Builder\<close>. The builder is kept as the
  sequence of the arguments of its \<^verbatim>\<open>WriteString\<close> calls, in order; \<^verbatim>\<open>String()\<close> is their
  concatenation.
\<close>

record diffState =
  addedCount :: nat
  omittedCount :: nat
  modifiedCount :: nat
  diff :: "string list"

definition tally :: "diffState \<Rightarrow> nat" where
  "tally st = addedCount st + omittedCount st + modifiedCount st"

definition builderString :: "string list \<Rightarrow> string" where
  "builderString ws = concat ws"

section \<open>RowDiffer: \<^verbatim>\<open>generateCSVDiff\<close> after parsing\<close>

text \<open>Row \<open>i\<close> of a table, the empty row \<^verbatim>\<open>[]string{}\<close> when the table has no row \<open>i\<close>.\<close>

definition rowAt :: "table \<Rightarrow> nat \<Rightarrow> row" where
  "rowAt t i = (if i < length t then t ! i else [])"

text \<open>Field \<open>j\<close> of a row, the empty string when the row has no field \<open>j\<close>.\<close>

definition fieldAt :: "row \<Rightarrow> nat \<Rightarrow> string" where
  "fieldAt r j = (if j < length r then r ! j else [])"

definition headerLine :: "string \<Rightarrow> string \<Rightarrow> string" where
  "headerLine ts filename = ''['' @ ts @ ''] Diff for '' @ filename @ nl"

definition addedRowLine :: "nat \<Rightarrow> row \<Rightarrow> string" where
  "addedRowLine i remoteRow = ''Added row '' @ itoa (i + 1) @ '': '' @ joinComma remoteRow @ nl"

definition omittedRowLine :: "nat \<Rightarrow> row \<Rightarrow> string" where
  "omittedRowLine i localRow = ''Omitted row '' @ itoa (i + 1) @ '': '' @ joinComma localRow @ nl"

definition modifiedFieldLine :: "nat \<Rightarrow> nat \<Rightarrow> string \<Rightarrow> string \<Rightarrow> string" where
  "modifiedFieldLine i j localField remoteField =
     ''Modified field in row '' @ itoa (i + 1) @ '', col '' @ itoa (j + 1) @ '': '' @ [CHR 0x27]
       @ localField @ [CHR 0x27] @ '' '' @ arrow @ '' '' @ [CHR 0x27] @ remoteField @ [CHR 0x27] @ nl"

definition noSpecificChangesLine :: string where
  "noSpecificChangesLine = ''No specific changes identified (full content mismatch)'' @ nl"

text \<open>The inner loop \<^verbatim>\<open>for j := 0; j < maxCols; j++\<close>, left by \<^verbatim>\<open>break\<close> at the first difference.\<close>

function fieldLoop :: "nat \<Rightarrow> nat \<Rightarrow> row \<Rightarrow> row \<Rightarrow> nat \<Rightarrow> diffState \<Rightarrow> diffState" where
  "fieldLoop i maxCols localRow remoteRow j st =
     (if j < maxCols then
        (let localField = fieldAt localRow j;
             remoteField = fieldAt remoteRow j
         in if localField \<noteq> remoteField
            then st\<lparr>modifiedCount := modifiedCount st + 1,
                    diff := diff st @ [modifiedFieldLine i j localField remoteField]\<rparr>
            else fieldLoop i maxCols localRow remoteRow (j + 1) st)
      else st)"
  by pat_completeness auto
termination
  by (relation "measure (\<lambda>(i, maxCols, localRow, remoteRow, j, st). maxCols - j)") auto

declare fieldLoop.simps [simp del]

text \<open>The body of the row loop, for row index \<open>i\<close>.\<close>

definition csvRowStep :: "table \<Rightarrow> table \<Rightarrow> nat \<Rightarrow> diffState \<Rightarrow> diffState" where
  "csvRowStep localCSV remoteCSV i st =
     (let localRow = rowAt localCSV i;
          remoteRow = rowAt remoteCSV i
      in if length localRow = 0
         then st\<lparr>addedCount := addedCount st + 1,
                 diff := diff st @ [addedRowLine i remoteRow]\<rparr>
         else if length remoteRow = 0
         then st\<lparr>omittedCount := omittedCount st + 1,
                 diff := diff st @ [omittedRowLine i localRow]\<rparr>
         else fieldLoop i (max (length localRow) (length remoteRow)) localRow remoteRow 0 st)"

text \<open>
  The row loop
  \<^verbatim>\<open>for i := 0; i < maxRows && addedCount+omittedCount+modifiedCount < maxChanges; i++\<close>.
\<close>

function csvLoop :: "table \<Rightarrow> table \<Rightarrow> nat \<Rightarrow> nat \<Rightarrow> diffState \<Rightarrow> diffState" where
  "csvLoop localCSV remoteCSV maxRows i st =
     (if i < maxRows \<and> tally st < maxDiffChanges
      then csvLoop localCSV remoteCSV maxRows (i + 1) (csvRowStep localCSV remoteCSV i st)
      else st)"
  by pat_completeness auto
termination
  by (relation "measure (\<lambda>(localCSV, remoteCSV, maxRows, i, st). maxRows - i)") auto

declare csvLoop.simps [simp del]

text \<open>
  Lines 345 to 399 of \<^verbatim>\<open>generateCSVDiff\<close>: the writes of the builder for two parsed tables,
  and the returned report.
\<close>

definition rowDifferWrites :: "string \<Rightarrow> string \<Rightarrow> table \<Rightarrow> table \<Rightarrow> string list" where
  "rowDifferWrites ts filename localCSV remoteCSV =
     (let st0 = \<lparr>addedCount = 0, omittedCount = 0, modifiedCount = 0,
                 diff = [headerLine ts filename]\<rparr>;
          maxRows = max (length localCSV) (length remoteCSV);
          st = csvLoop localCSV remoteCSV maxRows 0 st0
      in if tally st = 0 then diff st @ [noSpecificChangesLine] else diff st)"

definition rowDiffer :: "string \<Rightarrow> string \<Rightarrow> table \<Rightarrow> table \<Rightarrow> string" where
  "rowDiffer ts filename localCSV remoteCSV =
     builderString (rowDifferWrites ts filename localCSV remoteCSV)"

section \<open>The environment of a cycle\<close>

text \<open>
  What the program obtains from outside its own source: the SHA-256 digest, the standard
  library's \<^verbatim>\<open>strings.TrimSpace\<close>, \<^verbatim>\<open>strings.ToLower\<close> and \<^verbatim>\<open>filepath.Join\<close>, the CSV reader,
  the local files, the directory listing, the HTTP exchange and the EXIF and OCR extraction.
  Each is a field of the environment, so every theorem holds whatever these return. An
  error is \<^term>\<open>Inl\<close> of its message.
\<close>

datatype fetch =
    RequestFailed string
  | FetchFailed string
  | Response int "string + bytes"

type_synonym extraction = "string \<times> string \<times> string option \<times> string option"

record env =
  sum256 :: "bytes \<Rightarrow> bytes"
  trimSpace :: "string \<Rightarrow> string"
  toLower :: "string \<Rightarrow> string"
  filepathJoin :: "string \<Rightarrow> string \<Rightarrow> string"
  readFile :: "string \<Rightarrow> string + bytes"
  readdirnames :: "string \<Rightarrow> string + string list"
  csvReadAll :: "bytes \<Rightarrow> string + table"
  rawURL :: "string \<Rightarrow> string"
  httpGet :: "string \<Rightarrow> fetch"
  extractImageData :: "string \<Rightarrow> extraction"
  extractImageDataFromBytes :: "bytes \<Rightarrow> string \<Rightarrow> extraction"

section \<open>Digest: \<^verbatim>\<open>sha256Hex\<close> and \<^verbatim>\<open>fileHash\<close>\<close>

definition hexDigit :: "nat \<Rightarrow> char" where
  "hexDigit d = ''0123456789abcdef'' ! d"

text \<open>\<^verbatim>\<open>hex.EncodeToString\<close>: two lower-case hexadecimal digits for each byte.\<close>

definition hexEncode :: "bytes \<Rightarrow> string" where
  "hexEncode bs =
     concat (map (\<lambda>c. [hexDigit ((of_char c :: nat) div 16), hexDigit ((of_char c :: nat) mod 16)]) bs)"

definition sha256Hex :: "('a env_scheme) \<Rightarrow> bytes \<Rightarrow> string" where
  "sha256Hex e b = hexEncode (sum256 e b)"

definition fileHash :: "('a env_scheme) \<Rightarrow> string \<Rightarrow> string + string" where
  "fileHash e localPath =
     (case readFile e localPath of
        Inl err \<Rightarrow> Inl err
      | Inr content \<Rightarrow> Inr (hexEncode (sum256 e content)))"

text \<open>\<^verbatim>\<open>localHash, _ := fileHash(localPath)\<close>: the empty string when the file cannot be read.\<close>

definition fileHashIgnoringError :: "('a env_scheme) \<Rightarrow> string \<Rightarrow> string" where
  "fileHashIgnoringError e localPath =
     (case fileHash e localPath of Inl err \<Rightarrow> [] | Inr h \<Rightarrow> h)"

section \<open>\<^verbatim>\<open>generateCSVDiff\<close>\<close>

definition parseCSV :: "('a env_scheme) \<Rightarrow> string \<Rightarrow> string + table" where
  "parseCSV e path =
     (case readFile e path of
        Inl err \<Rightarrow> Inl err
      | Inr content \<Rightarrow> csvReadAll e content)"

definition parseCSVFromBytes :: "('a env_scheme) \<Rightarrow> bytes \<Rightarrow> string + table" where
  "parseCSVFromBytes e data = csvReadAll e data"

definition generateCSVDiff :: "('a env_scheme) \<Rightarrow> string \<Rightarrow> bytes \<Rightarrow> string \<Rightarrow> string \<Rightarrow> string" where
  "generateCSVDiff e localPath remoteData ts filename =
     (case parseCSV e localPath of
        Inl err \<Rightarrow> ''['' @ ts @ ''] CSV: '' @ filename @ '' | Error parsing local: '' @ err
      | Inr localCSV \<Rightarrow>
          (case parseCSVFromBytes e remoteData of
             Inl err \<Rightarrow> ''['' @ ts @ ''] CSV: '' @ filename @ '' | Error parsing remote: '' @ err
           | Inr remoteCSV \<Rightarrow> rowDiffer ts filename localCSV remoteCSV))"

section \<open>OpaqueDiffer: \<^verbatim>\<open>generatePDFDiff\<close>\<close>

definition fileHashLine :: "string \<Rightarrow> string \<Rightarrow> string" where
  "fileHashLine localHash remoteHash =
     ''File Hash: Local='' @ localHash @ '', Remote='' @ remoteHash @ nl"

definition generatePDFDiff :: "('a env_scheme) \<Rightarrow> string \<Rightarrow> bytes \<Rightarrow> string \<Rightarrow> string \<Rightarrow> string" where
  "generatePDFDiff e localPath remoteData ts filename =
     (let localHash = fileHashIgnoringError e localPath;
          remoteHash = sha256Hex e remoteData
      in ''['' @ ts @ ''] PDF Diff for '' @ filename @ nl @ fileHashLine localHash remoteHash)"

section \<open>LineDiffer: \<^verbatim>\<open>generateTextDiff\<close>\<close>

text \<open>Line \<open>i\<close> trimmed, the empty string when the text has no line \<open>i\<close>.\<close>

definition lineAt :: "('a env_scheme) \<Rightarrow> string list \<Rightarrow> nat \<Rightarrow> string" where
  "lineAt e ls i = (if i < length ls then trimSpace e (ls ! i) else [])"

definition addedLine :: "string \<Rightarrow> nat \<Rightarrow> string \<Rightarrow> string" where
  "addedLine section i remoteLine =
     ''Added '' @ section @ '' line '' @ itoa (i + 1) @ '': '' @ remoteLine @ nl"

definition omittedLine :: "string \<Rightarrow> nat \<Rightarrow> string \<Rightarrow> string" where
  "omittedLine section i localLine =
     ''Omitted '' @ section @ '' line '' @ itoa (i + 1) @ '': '' @ localLine @ nl"

definition modifiedLine :: "string \<Rightarrow> nat \<Rightarrow> string \<Rightarrow> string \<Rightarrow> string" where
  "modifiedLine section i localLine remoteLine =
     ''Modified '' @ section @ '' line '' @ itoa (i + 1) @ '': '' @ [CHR 0x27] @ localLine
       @ [CHR 0x27] @ '' '' @ arrow @ '' '' @ [CHR 0x27] @ remoteLine @ [CHR 0x27] @ nl"

definition noChangesLine :: "string \<Rightarrow> string" where
  "noChangesLine section = ''No '' @ section @ '' changes identified'' @ nl"

text \<open>The body of the line loop, for line index \<open>i\<close>.\<close>

definition textLineStep ::
  "('a env_scheme) \<Rightarrow> string list \<Rightarrow> string list \<Rightarrow> string \<Rightarrow> nat \<Rightarrow> diffState \<Rightarrow> diffState" where
  "textLineStep e localLines remoteLines section i st =
     (let localLine = lineAt e localLines i;
          remoteLine = lineAt e remoteLines i
      in if localLine = [] \<and> remoteLine \<noteq> []
         then st\<lparr>addedCount := addedCount st + 1,
                 diff := diff st @ [addedLine section i remoteLine]\<rparr>
         else if remoteLine = [] \<and> localLine \<noteq> []
         then st\<lparr>omittedCount := omittedCount st + 1,
                 diff := diff st @ [omittedLine section i localLine]\<rparr>
         else if localLine \<noteq> remoteLine
         then st\<lparr>modifiedCount := modifiedCount st + 1,
                 diff := diff st @ [modifiedLine section i localLine remoteLine]\<rparr>
         else st)"

function textLoop ::
  "('a env_scheme) \<Rightarrow> string list \<Rightarrow> string list \<Rightarrow> string \<Rightarrow> nat \<Rightarrow> nat \<Rightarrow> diffState \<Rightarrow> diffState" where
  "textLoop e localLines remoteLines section maxLines i st =
     (if i < maxLines \<and> tally st < maxDiffChanges
      then textLoop e localLines remoteLines section maxLines (i + 1)
             (textLineStep e localLines remoteLines section i st)
      else st)"
  by pat_completeness auto
termination
  by (relation "measure (\<lambda>(e, localLines, remoteLines, section, maxLines, i, st). maxLines - i)") auto

declare textLoop.simps [simp del]

definition textDiffWrites :: "('a env_scheme) \<Rightarrow> string \<Rightarrow> string \<Rightarrow> string \<Rightarrow> string list" where
  "textDiffWrites e localText remoteText section =
     (let localLines = splitNl localText;
          remoteLines = splitNl remoteText;
          st0 = \<lparr>addedCount = 0, omittedCount = 0, modifiedCount = 0, diff = []\<rparr>;
          maxLines = max (length localLines) (length remoteLines);
          st = textLoop e localLines remoteLines section maxLines 0 st0
      in if tally st = 0 then diff st @ [noChangesLine section] else diff st)"

definition generateTextDiff :: "('a env_scheme) \<Rightarrow> string \<Rightarrow> string \<Rightarrow> string \<Rightarrow> string" where
  "generateTextDiff e localText remoteText section =
     builderString (textDiffWrites e localText remoteText section)"

section \<open>MediaDiffReconciler: \<^verbatim>\<open>generateImageDiff\<close>\<close>

text \<open>The writes of lines 459 to 476, the EXIF channel.\<close>

definition exifSection ::
  "('a env_scheme) \<Rightarrow> string \<Rightarrow> string \<Rightarrow> string option \<Rightarrow> string option \<Rightarrow> string list" where
  "exifSection e localExif remoteExif localExifErr remoteExifErr =
     (case localExifErr of None \<Rightarrow> [] | Some err \<Rightarrow> [''Local EXIF Error: '' @ err @ nl])
     @ (case remoteExifErr of None \<Rightarrow> [] | Some err \<Rightarrow> [''Remote EXIF Error: '' @ err @ nl])
     @ (if localExifErr = None \<and> remoteExifErr = None
        then (if localExif \<noteq> remoteExif
              then [''EXIF Changed:'' @ nl, generateTextDiff e localExif remoteExif ''EXIF'']
              else [''EXIF Unchanged'' @ nl])
        else if localExifErr = None \<and> remoteExifErr \<noteq> None
        then [''EXIF: Local present, remote extraction failed'' @ nl @ ''Local EXIF:'' @ nl
                @ localExif @ nl]
        else if localExifErr \<noteq> None \<and> remoteExifErr = None
        then [''EXIF: Remote added, local extraction failed'' @ nl @ ''Remote EXIF:'' @ nl
                @ remoteExif @ nl]
        else [])"

text \<open>The writes of lines 478 to 495, the OCR channel.\<close>

definition ocrSection ::
  "('a env_scheme) \<Rightarrow> string \<Rightarrow> string \<Rightarrow> string option \<Rightarrow> string option \<Rightarrow> string list" where
  "ocrSection e localOcr remoteOcr localOcrErr remoteOcrErr =
     (case localOcrErr of None \<Rightarrow> [] | Some err \<Rightarrow> [''Local OCR Error: '' @ err @ nl])
     @ (case remoteOcrErr of None \<Rightarrow> [] | Some err \<Rightarrow> [''Remote OCR Error: '' @ err @ nl])
     @ (if localOcrErr = None \<and> remoteOcrErr = None
        then (if localOcr \<noteq> remoteOcr
              then [''OCR Text Changed:'' @ nl, generateTextDiff e localOcr remoteOcr ''OCR'']
              else [''OCR Text Unchanged'' @ nl])
        else if localOcrErr = None \<and> remoteOcrErr \<noteq> None
        then [''OCR: Local present, remote extraction failed'' @ nl @ ''Local OCR Text:'' @ nl
                @ localOcr @ nl]
        else if localOcrErr \<noteq> None \<and> remoteOcrErr = None
        then [''OCR: Remote added, local extraction failed'' @ nl @ ''Remote OCR Text:'' @ nl
                @ remoteOcr @ nl]
        else [])"

definition imageDiffWrites ::
  "('a env_scheme) \<Rightarrow> string \<Rightarrow> bytes \<Rightarrow> string \<Rightarrow> string \<Rightarrow> string \<Rightarrow> string
     \<Rightarrow> string option \<Rightarrow> string option \<Rightarrow> string option \<Rightarrow> string option
     \<Rightarrow> string \<Rightarrow> string \<Rightarrow> string list" where
  "imageDiffWrites e localPath remoteData localExif remoteExif localOcr remoteOcr
       localExifErr remoteExifErr localOcrErr remoteOcrErr ts filename =
     (let localHash = fileHashIgnoringError e localPath;
          remoteHash = sha256Hex e remoteData
      in [''['' @ ts @ ''] Image Diff for '' @ filename @ nl, fileHashLine localHash remoteHash]
         @ exifSection e localExif remoteExif localExifErr remoteExifErr
         @ ocrSection e localOcr remoteOcr localOcrErr remoteOcrErr)"

definition generateImageDiff ::
  "('a env_scheme) \<Rightarrow> string \<Rightarrow> bytes \<Rightarrow> string \<Rightarrow> string \<Rightarrow> string \<Rightarrow> string
     \<Rightarrow> string option \<Rightarrow> string option \<Rightarrow> string option \<Rightarrow> string option
     \<Rightarrow> string \<Rightarrow> string \<Rightarrow> string" where
  "generateImageDiff e localPath remoteData localExif remoteExif localOcr remoteOcr
       localExifErr remoteExifErr localOcrErr remoteOcrErr ts filename =
     builderString (imageDiffWrites e localPath remoteData localExif remoteExif localOcr remoteOcr
       localExifErr remoteExifErr localOcrErr remoteOcrErr ts filename)"

section \<open>The cycle: \<^verbatim>\<open>runCycle\<close>\<close>

text \<open>
  \<^verbatim>\<open>filepath.Ext\<close>: the suffix of the last path element that starts at its last dot, the
  empty string when that element has no dot.
\<close>

definition filepathExt :: "string \<Rightarrow> string" where
  "filepathExt path =
     (let base = rev (takeWhile (\<lambda>c. c \<noteq> CHR ''/'') (rev path))
      in if CHR ''.'' \<in> set base
         then CHR ''.'' # rev (takeWhile (\<lambda>c. c \<noteq> CHR ''.'') (rev base))
         else [])"

definition imageExts :: "string list" where
  "imageExts = [''.jpg'', ''.jpeg'', ''.png'', ''.avif'']"

definition lowerExt :: "('a env_scheme) \<Rightarrow> string \<Rightarrow> string" where
  "lowerExt e filename = toLower e (filepathExt filename)"

definition isMapImage :: "('a env_scheme) \<Rightarrow> string \<Rightarrow> bool" where
  "isMapImage e filename =
     list_ex (\<lambda>imgExt. lowerExt e filename = imgExt \<and> sublist ''map'' (toLower e filename)) imageExts"

text \<open>
  The scan of the directory listing (lines 190 to 222). A name of the listing is a single
  path element, for which \<^verbatim>\<open>filepath.Base(filepath.Join(runningDir, filename))\<close> is the name
  again; \<^verbatim>\<open>sort.Strings\<close> orders the names bytewise.
\<close>

definition monitoredFilenames :: "('a env_scheme) \<Rightarrow> string list \<Rightarrow> string list" where
  "monitoredFilenames e names =
     (let csvFiles = filter (\<lambda>filename. lowerExt e filename = ''.csv'') names;
          pdfFiles = filter (\<lambda>filename. lowerExt e filename \<noteq> ''.csv''
                                \<and> lowerExt e filename = ''.pdf'') names;
          imageFiles = filter (\<lambda>filename. lowerExt e filename \<noteq> ''.csv''
                                  \<and> lowerExt e filename \<noteq> ''.pdf''
                                  \<and> isMapImage e filename) names
      in sort (csvFiles @ pdfFiles @ imageFiles))"

text \<open>The running concatenation of fingerprints and the cumulative shift list of one cycle.\<close>

record cycleState =
  unifiedBuilder :: string
  shiftLog :: "string list"

definition unavailableReport :: "string \<Rightarrow> string \<Rightarrow> int \<Rightarrow> string \<Rightarrow> string" where
  "unavailableReport ts originalFilename statusCode url =
     ''['' @ ts @ ''] '' @ originalFilename @ '': Remote unavailable (HTTP '' @ fmtInt statusCode
       @ '') - potential deletion or rename (URL: '' @ url @ '')'' @ nl"

definition truncationMarker :: string where
  "truncationMarker = ''... (truncated)''"

text \<open>Lines 303 to 305.\<close>

definition truncateDiff :: "string \<Rightarrow> string" where
  "truncateDiff diffText =
     (if length diffText > maxDiffChars
      then take maxDiffChars diffText @ truncationMarker
      else diffText)"

text \<open>Lines 293 to 302: the differ chosen by the extension.\<close>

definition differReport :: "('a env_scheme) \<Rightarrow> string \<Rightarrow> bytes \<Rightarrow> string \<Rightarrow> string \<Rightarrow> string" where
  "differReport e localPath body ts originalFilename =
     (let ext = lowerExt e originalFilename
      in if ext = ''.csv'' then generateCSVDiff e localPath body ts originalFilename
         else if ext = ''.pdf'' then generatePDFDiff e localPath body ts originalFilename
         else (case extractImageData e localPath of
                 (localExif, localOcr, exifErr, ocrErr) \<Rightarrow>
                   (case extractImageDataFromBytes e body originalFilename of
                      (remoteExif, remoteOcr, remoteExifErr, remoteOcrErr) \<Rightarrow>
                        generateImageDiff e localPath body localExif remoteExif localOcr remoteOcr
                          exifErr remoteExifErr ocrErr remoteOcrErr ts originalFilename)))"

text \<open>
  The body of the item loop (lines 227 to 316). Each \<^verbatim>\<open>continue\<close> leaves the body before
  \<^verbatim>\<open>unifiedBuilder.WriteString(rawHash)\<close>; \<^verbatim>\<open>rawHash\<close> is a variable of the body, so the
  assignments \<^verbatim>\<open>rawHash = zeroHash\<close> that precede a \<^verbatim>\<open>continue\<close> reach nothing. Console
  output, the pause between fetches and the \<^verbatim>\<open>.changed\<close> snapshot are left out: nothing
  in the loop reads them.
\<close>

definition processItem ::
  "('a env_scheme) \<Rightarrow> string \<Rightarrow> string \<Rightarrow> string \<Rightarrow> cycleState \<Rightarrow> cycleState" where
  "processItem e ts runningDir originalFilename cs =
     (let localPath = filepathJoin e runningDir originalFilename;
          url = rawURL e originalFilename
      in case httpGet e url of
           RequestFailed err \<Rightarrow> (let rawHash = zeroHash in cs)
         | FetchFailed err \<Rightarrow> (let rawHash = zeroHash in cs)
         | Response statusCode bodyResult \<Rightarrow>
             if statusCode \<noteq> 200
             then (let diffText = unavailableReport ts originalFilename statusCode url;
                       cs1 = cs\<lparr>shiftLog := shiftLog cs @ [diffText]\<rparr>;
                       rawHash = zeroHash
                   in cs1)
             else (case bodyResult of
                     Inl err \<Rightarrow> (let rawHash = zeroHash in cs)
                   | Inr body \<Rightarrow>
                       (let rawHash = sha256Hex e body
                        in case fileHash e localPath of
                             Inl localErr \<Rightarrow> cs
                           | Inr localHash \<Rightarrow>
                               (let cs1 =
                                  (if rawHash = localHash then cs
                                   else cs\<lparr>shiftLog := shiftLog cs
                                     @ [truncateDiff (differReport e localPath body ts originalFilename)]\<rparr>)
                                in cs1\<lparr>unifiedBuilder := unifiedBuilder cs1 @ rawHash\<rparr>))))"

definition cycleItems :: "('a env_scheme) \<Rightarrow> string \<Rightarrow> string \<Rightarrow> string list \<Rightarrow> cycleState" where
  "cycleItems e ts runningDir filenames =
     foldl (\<lambda>cs originalFilename. processItem e ts runningDir originalFilename cs)
       \<lparr>unifiedBuilder = [], shiftLog = []\<rparr> filenames"

text \<open>
  What a cycle hands out: the reports written to the log, one per line group, and the
  unified hash. A cycle whose directory cannot be listed returns before either.
\<close>

record cycleResult =
  loggedReports :: "string list"
  unifiedInput :: string
  unifiedHash :: string

definition runCycle :: "('a env_scheme) \<Rightarrow> string \<Rightarrow> string \<Rightarrow> cycleResult option" where
  "runCycle e ts runningDir =
     (case readdirnames e runningDir of
        Inl err \<Rightarrow> None
      | Inr names \<Rightarrow>
          (let filenames = monitoredFilenames e names;
               cs = cycleItems e ts runningDir filenames
           in Some \<lparr>loggedReports = shiftLog cs,
                    unifiedInput = unifiedBuilder cs,
                    unifiedHash = sha256Hex e (unifiedBuilder cs)\<rparr>))"

section \<open>Notions used in the statements\<close>

text \<open>
  A detail line of RowDiffer and of LineDiffer: a write that starts as the Added, Omitted
  and Modified writes of the loops do.
\<close>

definition isRowDetail :: "string \<Rightarrow> bool" where
  "isRowDetail w =
     (prefix ''Added row '' w \<or> prefix ''Omitted row '' w \<or> prefix ''Modified field in row '' w)"

definition isTextDetail :: "string \<Rightarrow> string \<Rightarrow> bool" where
  "isTextDetail section w =
     (prefix (''Added '' @ section @ '' line '') w \<or> prefix (''Omitted '' @ section @ '' line '') w
      \<or> prefix (''Modified '' @ section @ '' line '') w)"

text \<open>
  A loop state \<open>st'\<close> that continues \<open>st\<close>: the builder has gained detail lines only, one for
  each unit the tally has gained.
\<close>

definition grows :: "(string \<Rightarrow> bool) \<Rightarrow> diffState \<Rightarrow> diffState \<Rightarrow> bool" where
  "grows P st st' =
     (\<exists>ws. diff st' = diff st @ ws \<and> tally st' = tally st + length ws \<and> list_all P ws)"

section \<open>A concrete environment\<close>

text \<open>
  An environment on which the model runs, for the concrete cases below. \<open>TrimSpace\<close> and
  \<open>ToLower\<close> are those of the standard library on ASCII text; the CSV reader is the
  standard one on input without commas, quotes or carriage returns (one single-field record
  for each non-empty line); the digest is a stand-in (the first 32 bytes, padded with zero
  bytes), since no statement below depends on SHA-256 itself. The directory \<open>/w\<close> holds
  \<open>a.csv\<close>, whose remote copy differs, \<open>b.pdf\<close>, whose remote copy answers HTTP 404, and
  \<open>notes.txt\<close>, which is not monitored.
\<close>

definition asciiSpace :: "char \<Rightarrow> bool" where
  "asciiSpace c = (c \<in> set [CHR 0x09, CHR 0x0A, CHR 0x0B, CHR 0x0C, CHR 0x0D, CHR 0x20])"

definition trimSpaceAscii :: "string \<Rightarrow> string" where
  "trimSpaceAscii s = rev (dropWhile asciiSpace (rev (dropWhile asciiSpace s)))"

definition toLowerAscii :: "string \<Rightarrow> string" where
  "toLowerAscii s =
     map (\<lambda>c. if CHR ''A'' \<le> c \<and> c \<le> CHR ''Z'' then char_of ((of_char c :: nat) + 32) else c) s"

definition linesAsRows :: "bytes \<Rightarrow> string + table" where
  "linesAsRows b = Inr (map (\<lambda>l. [l]) (filter (\<lambda>l. l \<noteq> []) (splitNl b)))"

definition exampleURL :: "string \<Rightarrow> string" where
  "exampleURL filename =
     ''https://raw.githubusercontent.com/dream-three/baseline/refs/heads/main/'' @ filename
       @ ''?t=17a-42''"

definition tenLongLines :: bytes where
  "tenLongLines = concat (replicate 10 (replicate 60 (CHR ''a'') @ nl))"

definition exampleEnv :: env where
  "exampleEnv =
     \<lparr>sum256 = (\<lambda>b. take 32 (b @ replicate 32 (CHR 0x00))),
      trimSpace = trimSpaceAscii,
      toLower = toLowerAscii,
      filepathJoin = (\<lambda>dir name. dir @ ''/'' @ name),
      readFile = (\<lambda>path. if path = ''/w/a.csv'' then Inr tenLongLines
                           else if path = ''/w/b.pdf'' then Inr ''%PDF-1.4''
                           else Inl ''no such file or directory''),
      readdirnames = (\<lambda>dir. if dir = ''/w'' then Inr [''notes.txt'', ''b.pdf'', ''a.csv'']
                              else Inl ''no such file or directory''),
      csvReadAll = linesAsRows,
      rawURL = exampleURL,
      httpGet = (\<lambda>url. if url = exampleURL ''a.csv'' then Response 200 (Inr (''x'' @ nl))
                         else Response 404 (Inr [])),
      extractImageData = (\<lambda>path. ([], [], None, None)),
      extractImageDataFromBytes = (\<lambda>body name. ([], [], None, None))\<rparr>"

definition exampleTs :: string where
  "exampleTs = ''Jan 02, 2006 - 03:04PM''"

definition twelveRows :: table where
  "twelveRows = map (\<lambda>n. [''r'' @ itoa n]) [0..<12]"

definition twelveLines :: string where
  "twelveLines = concat (map (\<lambda>n. ''l'' @ itoa n @ nl) [0..<12])"

definition emptyState :: diffState where
  "emptyState = \<lparr>addedCount = 0, omittedCount = 0, modifiedCount = 0, diff = []\<rparr>"

text \<open>
  The writes of the body of the row loop for row \<open>i\<close>, started on an empty builder: the
  one detail line of that row, or none.
\<close>

definition rowDetail :: "table \<Rightarrow> table \<Rightarrow> nat \<Rightarrow> string list" where
  "rowDetail localCSV remoteCSV i = diff (csvRowStep localCSV remoteCSV i emptyState)"

section \<open>The loops: what a run of each adds to the builder\<close>

lemma grows_refl: "grows P st st"
  by (simp add: grows_def)

lemma grows_trans: "grows P a b \<Longrightarrow> grows P b c \<Longrightarrow> grows P a c"
  unfolding grows_def by fastforce

lemma grows_one:
  assumes "diff st' = diff st @ [w]" "tally st' = tally st + 1" "P w"
  shows "grows P st st'"
  unfolding grows_def using assms by (intro exI [of _ "[w]"]) simp

lemma fieldLoop_equal:
  "(\<And>k. j \<le> k \<Longrightarrow> k < m \<Longrightarrow> fieldAt l k = fieldAt r k) \<Longrightarrow> fieldLoop i m l r j st = st"
proof (induction i m l r j st rule: fieldLoop.induct)
  case (1 i m l r j st)
  show ?case
  proof (cases "j < m")
    case True
    have eq: "fieldAt l j = fieldAt r j" using 1(2) [of j] True by simp
    have "fieldLoop i m l r (j + 1) st = st"
      using 1(1) [OF True refl refl] eq 1(2) by simp
    with True eq show ?thesis by (subst fieldLoop.simps) simp
  next
    case False
    then show ?thesis by (subst fieldLoop.simps) simp
  qed
qed

lemma fieldLoop_first:
  "j \<le> k \<Longrightarrow> k < m \<Longrightarrow> fieldAt l k \<noteq> fieldAt r k
   \<Longrightarrow> (\<And>k'. j \<le> k' \<Longrightarrow> k' < k \<Longrightarrow> fieldAt l k' = fieldAt r k')
   \<Longrightarrow> fieldLoop i m l r j st
       = st\<lparr>modifiedCount := modifiedCount st + 1,
            diff := diff st @ [modifiedFieldLine i k (fieldAt l k) (fieldAt r k)]\<rparr>"
proof (induction i m l r j st rule: fieldLoop.induct)
  case (1 i m l r j st)
  have jm: "j < m" using 1(2,3) by simp
  show ?case
  proof (cases "j = k")
    case True
    with jm 1(4) show ?thesis by (subst fieldLoop.simps) simp
  next
    case False
    then have lt: "j < k" using 1(2) by simp
    have eq: "fieldAt l j = fieldAt r j" using 1(5) [of j] lt by simp
    have "fieldLoop i m l r (j + 1) st
       = st\<lparr>modifiedCount := modifiedCount st + 1,
            diff := diff st @ [modifiedFieldLine i k (fieldAt l k) (fieldAt r k)]\<rparr>"
      using 1(1) [OF jm refl refl] eq lt 1(3,4,5) by simp
    with jm eq show ?thesis by (subst fieldLoop.simps) simp
  qed
qed

lemma isRowDetail_lines [simp]:
  "isRowDetail (addedRowLine i r)" "isRowDetail (omittedRowLine i r)"
  "isRowDetail (modifiedFieldLine i j a b)"
  by (simp_all add: isRowDetail_def addedRowLine_def omittedRowLine_def modifiedFieldLine_def)

lemma fieldLoop_cases:
  "fieldLoop i m l r j st = st
   \<or> (\<exists>k. fieldLoop i m l r j st
        = st\<lparr>modifiedCount := modifiedCount st + 1,
             diff := diff st @ [modifiedFieldLine i k (fieldAt l k) (fieldAt r k)]\<rparr>)"
proof (induction i m l r j st rule: fieldLoop.induct)
  case (1 i m l r j st)
  show ?case
  proof (cases "j < m \<and> fieldAt l j = fieldAt r j")
    case True
    then have "fieldLoop i m l r j st = fieldLoop i m l r (j + 1) st"
      by (subst fieldLoop.simps) simp
    with 1 [of "fieldAt l j" "fieldAt r j"] True show ?thesis by simp
  next
    case False
    show ?thesis
    proof (cases "j < m")
      case True
      with False have "fieldLoop i m l r j st
          = st\<lparr>modifiedCount := modifiedCount st + 1,
               diff := diff st @ [modifiedFieldLine i j (fieldAt l j) (fieldAt r j)]\<rparr>"
        by (subst fieldLoop.simps) simp
      then show ?thesis by blast
    next
      case False
      then show ?thesis by (subst fieldLoop.simps) simp
    qed
  qed
qed

lemma fieldLoop_grows: "grows isRowDetail st (fieldLoop i m l r j st)"
proof -
  consider "fieldLoop i m l r j st = st"
    | k where "fieldLoop i m l r j st
        = st\<lparr>modifiedCount := modifiedCount st + 1,
             diff := diff st @ [modifiedFieldLine i k (fieldAt l k) (fieldAt r k)]\<rparr>"
    using fieldLoop_cases [of i m l r j st] by blast
  then show ?thesis
  proof cases
    case 1
    then show ?thesis by (simp add: grows_refl)
  next
    case 2
    show ?thesis
      by (rule grows_one [where w = "modifiedFieldLine i k (fieldAt l k) (fieldAt r k)"])
         (simp_all add: 2 tally_def)
  qed
qed

lemma csvRowStep_grows: "grows isRowDetail st (csvRowStep l r i st)"
  by (auto simp: csvRowStep_def Let_def fieldLoop_grows tally_def intro!: grows_one)

lemma grows_tally_le: "grows P st st' \<Longrightarrow> tally st \<le> tally st'"
  by (auto simp: grows_def)

lemma csvRowStep_tally: "tally (csvRowStep l r i st) \<le> tally st + 1"
  using fieldLoop_cases [of i "max (length (rowAt l i)) (length (rowAt r i))" "rowAt l i" "rowAt r i" 0 st]
  by (auto simp: csvRowStep_def Let_def tally_def)

lemma csvLoop_grows: "grows isRowDetail st (csvLoop l r m i st)"
proof (induction l r m i st rule: csvLoop.induct)
  case (1 l r m i st)
  show ?case
  proof (cases "i < m \<and> tally st < maxDiffChanges")
    case True
    then have "csvLoop l r m i st = csvLoop l r m (i + 1) (csvRowStep l r i st)"
      by (subst csvLoop.simps) simp
    with 1 True show ?thesis
      using grows_trans [OF csvRowStep_grows] by metis
  next
    case False
    then show ?thesis by (subst csvLoop.simps) (auto simp: grows_refl)
  qed
qed

lemma csvLoop_cap: "tally st \<le> maxDiffChanges \<Longrightarrow> tally (csvLoop l r m i st) \<le> maxDiffChanges"
proof (induction l r m i st rule: csvLoop.induct)
  case (1 l r m i st)
  show ?case
  proof (cases "i < m \<and> tally st < maxDiffChanges")
    case True
    then have eq: "csvLoop l r m i st = csvLoop l r m (i + 1) (csvRowStep l r i st)"
      by (subst csvLoop.simps) simp
    have "tally (csvRowStep l r i st) \<le> maxDiffChanges"
      using csvRowStep_tally [of l r i st] True by simp
    with 1(1) True eq show ?thesis by simp
  next
    case False
    then show ?thesis using 1(2) by (subst csvLoop.simps) auto
  qed
qed




lemma isTextDetail_lines [simp]:
  "isTextDetail s (addedLine s i a)" "isTextDetail s (omittedLine s i a)"
  "isTextDetail s (modifiedLine s i a b)"
  by (simp_all add: isTextDetail_def addedLine_def omittedLine_def modifiedLine_def)

lemma textLineStep_grows: "grows (isTextDetail s) st (textLineStep e ll rl s i st)"
proof -
  define a where "a = lineAt e ll i"
  define b where "b = lineAt e rl i"
  consider (added) "a = []" "b \<noteq> []" | (omitted) "b = []" "a \<noteq> []"
    | (modified) "a \<noteq> []" "b \<noteq> []" "a \<noteq> b" | (same) "a = b"
    by blast
  then show ?thesis
  proof cases
    case added
    then have "textLineStep e ll rl s i st
        = st\<lparr>addedCount := addedCount st + 1, diff := diff st @ [addedLine s i b]\<rparr>"
      by (simp add: textLineStep_def a_def b_def)
    then show ?thesis
      by (intro grows_one [where w = "addedLine s i b"]) (simp_all add: tally_def)
  next
    case omitted
    then have "textLineStep e ll rl s i st
        = st\<lparr>omittedCount := omittedCount st + 1, diff := diff st @ [omittedLine s i a]\<rparr>"
      by (simp add: textLineStep_def a_def b_def)
    then show ?thesis
      by (intro grows_one [where w = "omittedLine s i a"]) (simp_all add: tally_def)
  next
    case modified
    then have "textLineStep e ll rl s i st
        = st\<lparr>modifiedCount := modifiedCount st + 1, diff := diff st @ [modifiedLine s i a b]\<rparr>"
      by (simp add: textLineStep_def a_def b_def)
    then show ?thesis
      by (intro grows_one [where w = "modifiedLine s i a b"]) (simp_all add: tally_def)
  next
    case same
    then have "textLineStep e ll rl s i st = st"
      by (simp add: textLineStep_def a_def b_def)
    then show ?thesis by (simp add: grows_refl)
  qed
qed

lemma textLineStep_tally: "tally (textLineStep e ll rl s i st) \<le> tally st + 1"
proof -
  define a where "a = lineAt e ll i"
  define b where "b = lineAt e rl i"
  consider (added) "a = []" "b \<noteq> []" | (omitted) "b = []" "a \<noteq> []"
    | (modified) "a \<noteq> []" "b \<noteq> []" "a \<noteq> b" | (same) "a = b"
    by blast
  then show ?thesis
  proof cases
    case added
    then have "textLineStep e ll rl s i st
        = st\<lparr>addedCount := addedCount st + 1, diff := diff st @ [addedLine s i b]\<rparr>"
      by (simp add: textLineStep_def a_def b_def)
    then show ?thesis by (simp add: tally_def)
  next
    case omitted
    then have "textLineStep e ll rl s i st
        = st\<lparr>omittedCount := omittedCount st + 1, diff := diff st @ [omittedLine s i a]\<rparr>"
      by (simp add: textLineStep_def a_def b_def)
    then show ?thesis by (simp add: tally_def)
  next
    case modified
    then have "textLineStep e ll rl s i st
        = st\<lparr>modifiedCount := modifiedCount st + 1, diff := diff st @ [modifiedLine s i a b]\<rparr>"
      by (simp add: textLineStep_def a_def b_def)
    then show ?thesis by (simp add: tally_def)
  next
    case same
    then have "textLineStep e ll rl s i st = st"
      by (simp add: textLineStep_def a_def b_def)
    then show ?thesis by simp
  qed
qed

lemma textLoop_grows: "grows (isTextDetail s) st (textLoop e ll rl s m i st)"
proof (induction e ll rl s m i st rule: textLoop.induct)
  case (1 e ll rl s m i st)
  show ?case
  proof (cases "i < m \<and> tally st < maxDiffChanges")
    case True
    then have "textLoop e ll rl s m i st = textLoop e ll rl s m (i + 1) (textLineStep e ll rl s i st)"
      by (subst textLoop.simps) simp
    with 1 True show ?thesis
      using grows_trans [OF textLineStep_grows] by metis
  next
    case False
    then show ?thesis by (subst textLoop.simps) (auto simp: grows_refl)
  qed
qed

lemma textLoop_cap:
  "tally st \<le> maxDiffChanges \<Longrightarrow> tally (textLoop e ll rl s m i st) \<le> maxDiffChanges"
proof (induction e ll rl s m i st rule: textLoop.induct)
  case (1 e ll rl s m i st)
  show ?case
  proof (cases "i < m \<and> tally st < maxDiffChanges")
    case True
    then have eq: "textLoop e ll rl s m i st = textLoop e ll rl s m (i + 1) (textLineStep e ll rl s i st)"
      by (subst textLoop.simps) simp
    have "tally (textLineStep e ll rl s i st) \<le> maxDiffChanges"
      using textLineStep_tally [of e ll rl s i st] True by simp
    with 1(1) True eq show ?thesis by simp
  next
    case False
    then show ?thesis using 1(2) by (subst textLoop.simps) auto
  qed
qed

lemma not_detail_header [simp]: "\<not> isRowDetail (headerLine ts fn)"
  by (simp add: isRowDetail_def headerLine_def)

lemma not_detail_fallback [simp]: "\<not> isRowDetail noSpecificChangesLine"
  by (simp add: isRowDetail_def noSpecificChangesLine_def)

lemma not_textDetail_fallback [simp]: "\<not> isTextDetail s (noChangesLine s)"
  by (simp add: isTextDetail_def noChangesLine_def)

lemma filter_all: "list_all P ws \<Longrightarrow> filter P ws = ws"
  by (induction ws) auto

lemma rowDifferWrites_shape:
  "\<exists>ws. rowDifferWrites ts fn l r
          = headerLine ts fn # ws @ (if ws = [] then [noSpecificChangesLine] else [])
        \<and> length ws \<le> maxDiffChanges \<and> list_all isRowDetail ws"
proof -
  define st0 where "st0 = \<lparr>addedCount = 0, omittedCount = 0, modifiedCount = 0,
                           diff = [headerLine ts fn]\<rparr>"
  define st where "st = csvLoop l r (max (length l) (length r)) 0 st0"
  have t0: "tally st0 = 0" by (simp add: st0_def tally_def)
  obtain ws where ws: "diff st = diff st0 @ ws" "tally st = tally st0 + length ws"
      "list_all isRowDetail ws"
    using csvLoop_grows [of st0 l r "max (length l) (length r)" 0]
    unfolding st_def grows_def by blast
  have cap: "tally st \<le> maxDiffChanges"
    unfolding st_def by (rule csvLoop_cap) (simp add: t0)
  have res: "rowDifferWrites ts fn l r
      = (if tally st = 0 then diff st @ [noSpecificChangesLine] else diff st)"
    by (simp add: rowDifferWrites_def Let_def st_def st0_def)
  have "rowDifferWrites ts fn l r
      = headerLine ts fn # ws @ (if ws = [] then [noSpecificChangesLine] else [])"
    using ws t0 by (simp add: res st0_def)
  moreover have "length ws \<le> maxDiffChanges" using cap ws t0 by simp
  ultimately show ?thesis using ws(3) by blast
qed

lemma textDiffWrites_shape:
  "\<exists>ws. textDiffWrites e a b s = ws @ (if ws = [] then [noChangesLine s] else [])
        \<and> length ws \<le> maxDiffChanges \<and> list_all (isTextDetail s) ws"
proof -
  define st0 where "st0 = \<lparr>addedCount = 0, omittedCount = 0, modifiedCount = 0,
                           diff = ([] :: string list)\<rparr>"
  define m where "m = max (length (splitNl a)) (length (splitNl b))"
  define st where "st = textLoop e (splitNl a) (splitNl b) s m 0 st0"
  have t0: "tally st0 = 0" by (simp add: st0_def tally_def)
  obtain ws where ws: "diff st = diff st0 @ ws" "tally st = tally st0 + length ws"
      "list_all (isTextDetail s) ws"
    using textLoop_grows [of s st0 e "splitNl a" "splitNl b" m 0]
    unfolding st_def grows_def by blast
  have cap: "tally st \<le> maxDiffChanges"
    unfolding st_def by (rule textLoop_cap) (simp add: t0)
  have res: "textDiffWrites e a b s
      = (if tally st = 0 then diff st @ [noChangesLine s] else diff st)"
    by (simp add: textDiffWrites_def Let_def st_def st0_def m_def)
  have "textDiffWrites e a b s = ws @ (if ws = [] then [noChangesLine s] else [])"
    using ws t0 by (simp add: res st0_def)
  moreover have "length ws \<le> maxDiffChanges" using cap ws t0 by simp
  ultimately show ?thesis using ws(3) by blast
qed

lemma csvRowStep_same:
  "rowAt t i \<noteq> [] \<Longrightarrow> csvRowStep t t i st = st"
  by (simp add: csvRowStep_def Let_def fieldLoop_equal)

lemma csvLoop_same_aux:
  "t' = t \<Longrightarrow> \<forall>row \<in> set t. row \<noteq> [] \<Longrightarrow> m \<le> length t \<Longrightarrow> csvLoop t t' m i st = st"
proof (induction t t' m i st rule: csvLoop.induct)
  case (1 t t' m i st)
  show ?case
  proof (cases "i < m \<and> tally st < maxDiffChanges")
    case True
    then have "rowAt t i \<noteq> []" using 1(3,4) by (simp add: rowAt_def)
    then have s: "csvRowStep t t' i st = st" using 1(2) by (simp add: csvRowStep_same)
    have "csvLoop t t' m i st = csvLoop t t' m (i + 1) (csvRowStep t t' i st)"
      using True by (subst csvLoop.simps) simp
    with 1(1) [OF True 1(2,3,4)] s show ?thesis by simp
  next
    case False
    then show ?thesis by (subst csvLoop.simps) auto
  qed
qed

lemma csvLoop_same:
  "\<forall>row \<in> set t. row \<noteq> [] \<Longrightarrow> m \<le> length t \<Longrightarrow> csvLoop t t m i st = st"
  by (rule csvLoop_same_aux) simp_all

lemma textLineStep_same: "textLineStep e ls ls s i st = st"
  by (simp add: textLineStep_def Let_def)

lemma textLoop_same_aux: "ls' = ls \<Longrightarrow> textLoop e ls ls' s m i st = st"
proof (induction e ls ls' s m i st rule: textLoop.induct)
  case (1 e ls ls' s m i st)
  show ?case
  proof (cases "i < m \<and> tally st < maxDiffChanges")
    case True
    have "textLoop e ls ls' s m i st = textLoop e ls ls' s m (i + 1) (textLineStep e ls ls' s i st)"
      using True by (subst textLoop.simps) simp
    with 1(1) [OF True 1(2)] 1(2) show ?thesis by (simp add: textLineStep_same)
  next
    case False
    then show ?thesis by (subst textLoop.simps) auto
  qed
qed

lemma textLoop_same: "textLoop e ls ls s m i st = st"
  by (rule textLoop_same_aux) simp

subsection \<open>The row loop as the first ten detail lines of its rows\<close>

lemma fieldLoop_detail:
  "diff (fieldLoop i m l r j st) = diff st @ diff (fieldLoop i m l r j emptyState)
   \<and> tally (fieldLoop i m l r j st)
       = tally st + length (diff (fieldLoop i m l r j emptyState))
   \<and> length (diff (fieldLoop i m l r j emptyState)) \<le> 1"
proof (induction i m l r j st rule: fieldLoop.induct)
  case (1 i m l r j st)
  show ?case
  proof (cases "j < m")
    case True
    show ?thesis
    proof (cases "fieldAt l j = fieldAt r j")
      case eq: True
      have a: "fieldLoop i m l r j st = fieldLoop i m l r (j + 1) st"
        using True eq by (subst fieldLoop.simps) simp
      have b: "fieldLoop i m l r j emptyState = fieldLoop i m l r (j + 1) emptyState"
        using True eq by (subst fieldLoop.simps) simp
      show ?thesis
        using 1 [of "fieldAt l j" "fieldAt r j"] True eq unfolding a b by simp
    next
      case False
      have a: "fieldLoop i m l r j st
          = st\<lparr>modifiedCount := modifiedCount st + 1,
               diff := diff st @ [modifiedFieldLine i j (fieldAt l j) (fieldAt r j)]\<rparr>"
        using True False by (subst fieldLoop.simps) simp
      have b: "fieldLoop i m l r j emptyState
          = emptyState\<lparr>modifiedCount := modifiedCount emptyState + 1,
               diff := diff emptyState @ [modifiedFieldLine i j (fieldAt l j) (fieldAt r j)]\<rparr>"
        using True False by (subst fieldLoop.simps) simp
      show ?thesis unfolding a b by (simp add: tally_def emptyState_def)
    qed
  next
    case False
    have a: "fieldLoop i m l r j st = st" using False by (subst fieldLoop.simps) simp
    have b: "fieldLoop i m l r j emptyState = emptyState"
      using False by (subst fieldLoop.simps) simp
    show ?thesis unfolding a b by (simp add: emptyState_def)
  qed
qed

lemma csvRowStep_detail:
  "diff (csvRowStep l r i st) = diff st @ rowDetail l r i"
  "tally (csvRowStep l r i st) = tally st + length (rowDetail l r i)"
  "length (rowDetail l r i) \<le> 1"
  using fieldLoop_detail [of i "max (length (rowAt l i)) (length (rowAt r i))"
      "rowAt l i" "rowAt r i" 0 st]
  by (simp_all add: rowDetail_def csvRowStep_def Let_def tally_def emptyState_def)

lemma take_short_append:
  "length d \<le> n \<Longrightarrow> take n (d @ rest) = d @ take (n - length d) rest"
  by simp

lemma csvLoop_detail:
  "diff (csvLoop l r m i st)
     = diff st @ take (maxDiffChanges - tally st) (concat (map (rowDetail l r) [i..<m]))
   \<and> tally (csvLoop l r m i st)
     = tally st
       + length (take (maxDiffChanges - tally st) (concat (map (rowDetail l r) [i..<m])))"
proof (induction l r m i st rule: csvLoop.induct)
  case (1 l r m i st)
  show ?case
  proof (cases "i < m \<and> tally st < maxDiffChanges")
    case True
    define d where "d = rowDetail l r i"
    define rest where "rest = concat (map (rowDetail l r) [i + 1..<m])"
    define st' where "st' = csvRowStep l r i st"
    have eq: "csvLoop l r m i st = csvLoop l r m (i + 1) st'"
      using True by (subst csvLoop.simps) (simp add: st'_def)
    have d1: "length d \<le> 1" using csvRowStep_detail(3) [of l r i] by (simp add: d_def)
    have st': "diff st' = diff st @ d" "tally st' = tally st + length d"
      by (simp_all add: st'_def d_def csvRowStep_detail)
    have rows: "concat (map (rowDetail l r) [i..<m]) = d @ rest"
      using True by (simp add: upt_conv_Cons d_def rest_def)
    have short: "length d \<le> maxDiffChanges - tally st" using d1 True by arith
    have tk: "take (maxDiffChanges - tally st) (d @ rest)
        = d @ take (maxDiffChanges - tally st') rest"
      using take_short_append [OF short, of rest] by (simp add: st')
    have ih: "diff (csvLoop l r m (i + 1) st')
         = diff st' @ take (maxDiffChanges - tally st') rest
       \<and> tally (csvLoop l r m (i + 1) st')
         = tally st' + length (take (maxDiffChanges - tally st') rest)"
      using 1 [OF True] by (simp add: st'_def rest_def)
    show ?thesis unfolding eq rows tk using ih by (simp add: st')
  next
    case False
    have eq: "csvLoop l r m i st = st" using False by (subst csvLoop.simps) auto
    from False show ?thesis unfolding eq by auto
  qed
qed

lemma rowDifferWrites_rows:
  "rowDifferWrites ts fn l r
     = headerLine ts fn
       # (let ds = take maxDiffChanges
                     (concat (map (rowDetail l r) [0..<max (length l) (length r)]))
          in if ds = [] then [noSpecificChangesLine] else ds)"
proof -
  define st0 where "st0 = \<lparr>addedCount = 0, omittedCount = 0, modifiedCount = 0,
                           diff = [headerLine ts fn]\<rparr>"
  have t0: "tally st0 = 0" "diff st0 = [headerLine ts fn]" by (simp_all add: st0_def tally_def)
  show ?thesis
    using csvLoop_detail [of l r "max (length l) (length r)" 0 st0]
    unfolding rowDifferWrites_def Let_def st0_def [symmetric]
    by (simp add: t0)
qed

lemma rowDetail_added:
  "rowAt l i = [] \<Longrightarrow> rowDetail l r i = [addedRowLine i (rowAt r i)]"
  by (simp add: rowDetail_def csvRowStep_def emptyState_def)

lemma rowDetail_omitted:
  "rowAt l i \<noteq> [] \<Longrightarrow> rowAt r i = [] \<Longrightarrow> rowDetail l r i = [omittedRowLine i (rowAt l i)]"
  by (simp add: rowDetail_def csvRowStep_def emptyState_def)

lemma rowDifferWrites_at:
  assumes i: "i < max (length l) (length r)"
    and reached: "length (concat (map (rowDetail l r) [0..<i])) < maxDiffChanges"
    and line: "rowDetail l r i = [w]"
  shows "rowDifferWrites ts fn l r
     = headerLine ts fn # concat (map (rowDetail l r) [0..<i]) @ [w]
       @ take (maxDiffChanges - length (concat (map (rowDetail l r) [0..<i])) - 1)
           (concat (map (rowDetail l r) [i + 1..<max (length l) (length r)]))"
proof -
  define pre where "pre = concat (map (rowDetail l r) [0..<i])"
  define post where "post = concat (map (rowDetail l r) [i + 1..<max (length l) (length r)])"
  have "[0..<max (length l) (length r)] = [0..<i] @ i # [i + 1..<max (length l) (length r)]"
    using i upt_add_eq_append [of 0 i "max (length l) (length r) - i"]
    by (simp add: upt_conv_Cons)
  then have rows: "concat (map (rowDetail l r) [0..<max (length l) (length r)])
      = pre @ [w] @ post"
    by (simp add: pre_def post_def line)
  have short: "length (pre @ [w]) \<le> maxDiffChanges" using reached by (simp add: pre_def)
  have "take maxDiffChanges (pre @ [w] @ post)
      = pre @ [w] @ take (maxDiffChanges - length pre - 1) post"
    using take_short_append [OF short, of post] by simp
  then show ?thesis
    unfolding rowDifferWrites_rows rows pre_def [symmetric] post_def [symmetric]
    by (simp add: Let_def)
qed

section \<open>The claims\<close>

subsection \<open>C4: the cap on detail lines\<close>

text \<open>
  C4. For every pair of tables and every pair of texts, the Added, Omitted and Modified
  detail lines of the report number at most 10 together, and itemization stops silently:
  the report of RowDiffer is its header followed by the detail lines and nothing else, that
  of LineDiffer is the detail lines and nothing else; the fallback line stands in their
  place only when there is none. A detail line is one write of the loop.
\<close>

theorem differs_cap:
  "length (filter isRowDetail (rowDifferWrites ts fn l r)) \<le> maxDiffChanges
   \<and> rowDifferWrites ts fn l r
       = headerLine ts fn # filter isRowDetail (rowDifferWrites ts fn l r)
           @ (if filter isRowDetail (rowDifferWrites ts fn l r) = []
              then [noSpecificChangesLine] else [])
   \<and> length (filter (isTextDetail s) (textDiffWrites e a b s)) \<le> maxDiffChanges
   \<and> textDiffWrites e a b s
       = filter (isTextDetail s) (textDiffWrites e a b s)
           @ (if filter (isTextDetail s) (textDiffWrites e a b s) = []
              then [noChangesLine s] else [])
   \<and> maxDiffChanges = 10"
proof -
  obtain ws where ws: "rowDifferWrites ts fn l r
        = headerLine ts fn # ws @ (if ws = [] then [noSpecificChangesLine] else [])"
      "length ws \<le> maxDiffChanges" "list_all isRowDetail ws"
    using rowDifferWrites_shape by blast
  have fr: "filter isRowDetail (rowDifferWrites ts fn l r) = ws"
    using ws(3) by (simp add: ws(1) filter_all)
  obtain vs where vs: "textDiffWrites e a b s = vs @ (if vs = [] then [noChangesLine s] else [])"
      "length vs \<le> maxDiffChanges" "list_all (isTextDetail s) vs"
    using textDiffWrites_shape by blast
  have ft: "filter (isTextDetail s) (textDiffWrites e a b s) = vs"
    using vs(3) by (simp add: vs(1) filter_all)
  show ?thesis
    unfolding fr ft using ws(1,2) vs(1,2) by (simp add: maxDiffChanges_def)
qed

theorem differs_cap_witness:
  "length (filter isRowDetail (rowDifferWrites exampleTs ''a.csv'' twelveRows [])) = 10
   \<and> length (rowDifferWrites exampleTs ''a.csv'' twelveRows []) = 11
   \<and> length (filter (isTextDetail ''OCR'') (textDiffWrites exampleEnv twelveLines [] ''OCR'')) = 10
   \<and> length (textDiffWrites exampleEnv twelveLines [] ''OCR'') = 10"
proof -
  have r: "length (filter isRowDetail (rowDifferWrites exampleTs ''a.csv'' twelveRows [])) = 10"
    by code_simp
  have t: "length (filter (isTextDetail ''OCR'') (textDiffWrites exampleEnv twelveLines [] ''OCR'')) = 10"
    by code_simp
  have c: "rowDifferWrites exampleTs ''a.csv'' twelveRows []
       = headerLine exampleTs ''a.csv'' # filter isRowDetail (rowDifferWrites exampleTs ''a.csv'' twelveRows [])
           @ (if filter isRowDetail (rowDifferWrites exampleTs ''a.csv'' twelveRows []) = []
              then [noSpecificChangesLine] else [])"
    and d: "textDiffWrites exampleEnv twelveLines [] ''OCR''
       = filter (isTextDetail ''OCR'') (textDiffWrites exampleEnv twelveLines [] ''OCR'')
           @ (if filter (isTextDetail ''OCR'') (textDiffWrites exampleEnv twelveLines [] ''OCR'') = []
              then [noChangesLine ''OCR''] else [])"
    using differs_cap [of exampleTs "''a.csv''" twelveRows "[]" "''OCR''" exampleEnv twelveLines "[]"]
    by blast+
  have "length (rowDifferWrites exampleTs ''a.csv'' twelveRows []) = 11"
    by (subst c) (use r in auto)
  moreover have "length (textDiffWrites exampleEnv twelveLines [] ''OCR'') = 10"
    by (subst d) (use t in auto)
  ultimately show ?thesis using r t by simp
qed

subsection \<open>C5: reflexivity\<close>

text \<open>
  The tables that \<^verbatim>\<open>generateCSVDiff\<close> compares are those that \<^verbatim>\<open>csv.Reader.ReadAll\<close> returns,
  and every record of that reader holds at least one field (an empty line is skipped, not
  read as a record). So the tables of the program are those whose rows all have a field.
\<close>

text \<open>
  C5. Diffing a table against itself gives the header and the fallback line "No specific
  changes identified" only, and so does \<^verbatim>\<open>generateCSVDiff\<close> on a local file and the remote
  bytes that are its content; diffing any text against itself gives the fallback line
  "No ... changes identified" only. No Added, Omitted or Modified line is written.
\<close>

theorem differs_reflexive:
  "(list_all (\<lambda>row. row \<noteq> []) t \<longrightarrow>
      rowDifferWrites ts fn t t = [headerLine ts fn, noSpecificChangesLine]
      \<and> rowDiffer ts fn t t
          = ''['' @ ts @ ''] Diff for '' @ fn @ nl
            @ ''No specific changes identified (full content mismatch)'' @ nl)
   \<and> (readFile e localPath = Inr content \<and> csvReadAll e content = Inr t
        \<and> list_all (\<lambda>row. row \<noteq> []) t \<longrightarrow>
      generateCSVDiff e localPath content ts fn
          = ''['' @ ts @ ''] Diff for '' @ fn @ nl
            @ ''No specific changes identified (full content mismatch)'' @ nl)
   \<and> textDiffWrites e s s sect = [noChangesLine sect]
   \<and> generateTextDiff e s s sect = ''No '' @ sect @ '' changes identified'' @ nl"
proof -
  have rows: "rowDifferWrites ts fn t t = [headerLine ts fn, noSpecificChangesLine]"
    if "list_all (\<lambda>row. row \<noteq> []) t"
  proof -
    have "\<forall>row \<in> set t. row \<noteq> []" using that by (simp add: list_all_iff)
    then show ?thesis
      by (simp add: rowDifferWrites_def Let_def csvLoop_same tally_def)
  qed
  have table: "rowDiffer ts fn t t
      = ''['' @ ts @ ''] Diff for '' @ fn @ nl
        @ ''No specific changes identified (full content mismatch)'' @ nl"
    if "list_all (\<lambda>row. row \<noteq> []) t"
    using rows [OF that]
    by (simp add: rowDiffer_def builderString_def headerLine_def noSpecificChangesLine_def)
  have fromFile: "generateCSVDiff e localPath content ts fn
      = ''['' @ ts @ ''] Diff for '' @ fn @ nl
        @ ''No specific changes identified (full content mismatch)'' @ nl"
    if "readFile e localPath = Inr content" "csvReadAll e content = Inr t"
      "list_all (\<lambda>row. row \<noteq> []) t"
    using that table
    by (simp add: generateCSVDiff_def parseCSV_def parseCSVFromBytes_def)
  have writes: "textDiffWrites e s s sect = [noChangesLine sect]"
    by (simp add: textDiffWrites_def Let_def textLoop_same tally_def)
  have whole: "generateTextDiff e s s sect = ''No '' @ sect @ '' changes identified'' @ nl"
    using writes by (simp add: generateTextDiff_def builderString_def noChangesLine_def)
  show ?thesis using rows table fromFile writes whole by blast
qed

theorem differs_reflexive_witness:
  "generateCSVDiff exampleEnv ''/w/a.csv'' tenLongLines exampleTs ''a.csv''
     = ''[Jan 02, 2006 - 03:04PM] Diff for a.csv'' @ nl
       @ ''No specific changes identified (full content mismatch)'' @ nl
   \<and> rowDifferWrites exampleTs ''a.csv'' [[''a'', ''b''], [''c'', ''d'']]
         [[''a'', ''b''], [''c'', ''d'']]
     = [headerLine exampleTs ''a.csv'', noSpecificChangesLine]
   \<and> generateTextDiff exampleEnv (''GPS: 45.0'' @ nl @ ''ISO: 100'')
         (''GPS: 45.0'' @ nl @ ''ISO: 100'') ''EXIF''
     = ''No EXIF changes identified'' @ nl"
proof -
  have content: "readFile exampleEnv ''/w/a.csv'' = Inr tenLongLines"
    "csvReadAll exampleEnv tenLongLines = Inr (replicate 10 [replicate 60 (CHR ''a'')])"
    "list_all (\<lambda>row. row \<noteq> []) (replicate 10 [replicate 60 (CHR ''a'')])"
    by code_simp+
  show ?thesis
    using differs_reflexive [where t = "replicate 10 [replicate 60 (CHR ''a'')]"
        and e = exampleEnv and localPath = "''/w/a.csv''" and content = tenLongLines
        and ts = exampleTs and fn = "''a.csv''"] content
      differs_reflexive [where t = "[[''a'', ''b''], [''c'', ''d'']]" and ts = exampleTs
        and fn = "''a.csv''" and e = exampleEnv and s = "''GPS: 45.0'' @ nl @ ''ISO: 100''"
        and sect = "''EXIF''"]
    by (simp add: exampleTs_def)
qed

subsection \<open>C6: one Modified line for a row, at its first differing field\<close>

text \<open>
  C6. When row \<open>i\<close> has fields on both sides, the body of the row loop writes nothing if
  all fields up to the longer row's length agree (a missing field read as the empty
  string), and otherwise writes exactly one line, for the first index \<open>j\<close> at which they
  differ: "Modified field in row i+1, col j+1" with both field values. The fields after
  \<open>j\<close> play no part. In either case the row adds at most one line.
\<close>

theorem rowStep_first_difference:
  "rowAt localCSV i \<noteq> [] \<and> rowAt remoteCSV i \<noteq> [] \<longrightarrow>
   ((\<forall>j < max (length (rowAt localCSV i)) (length (rowAt remoteCSV i)).
        fieldAt (rowAt localCSV i) j = fieldAt (rowAt remoteCSV i) j)
      \<longrightarrow> csvRowStep localCSV remoteCSV i st = st)
   \<and> (j < max (length (rowAt localCSV i)) (length (rowAt remoteCSV i))
        \<and> fieldAt (rowAt localCSV i) j \<noteq> fieldAt (rowAt remoteCSV i) j
        \<and> (\<forall>k < j. fieldAt (rowAt localCSV i) k = fieldAt (rowAt remoteCSV i) k)
      \<longrightarrow> csvRowStep localCSV remoteCSV i st
          = st\<lparr>modifiedCount := modifiedCount st + 1,
               diff := diff st
                 @ [''Modified field in row '' @ itoa (i + 1) @ '', col '' @ itoa (j + 1) @ '': ''
                    @ [CHR 0x27] @ fieldAt (rowAt localCSV i) j @ [CHR 0x27] @ '' '' @ arrow
                    @ '' '' @ [CHR 0x27] @ fieldAt (rowAt remoteCSV i) j @ [CHR 0x27] @ nl]\<rparr>)
   \<and> length (diff (csvRowStep localCSV remoteCSV i st)) \<le> length (diff st) + 1"
proof (intro impI)
  assume ne: "rowAt localCSV i \<noteq> [] \<and> rowAt remoteCSV i \<noteq> []"
  define lr where "lr = rowAt localCSV i"
  define rr where "rr = rowAt remoteCSV i"
  define m where "m = max (length lr) (length rr)"
  have step: "csvRowStep localCSV remoteCSV i st = fieldLoop i m lr rr 0 st"
    using ne by (simp add: csvRowStep_def Let_def lr_def rr_def m_def)
  have a: "(\<forall>j<m. fieldAt lr j = fieldAt rr j) \<longrightarrow> csvRowStep localCSV remoteCSV i st = st"
    unfolding step by (auto intro: fieldLoop_equal)
  have b: "j < m \<and> fieldAt lr j \<noteq> fieldAt rr j \<and> (\<forall>k<j. fieldAt lr k = fieldAt rr k)
      \<longrightarrow> csvRowStep localCSV remoteCSV i st
          = st\<lparr>modifiedCount := modifiedCount st + 1,
               diff := diff st @ [modifiedFieldLine i j (fieldAt lr j) (fieldAt rr j)]\<rparr>"
  proof (intro impI, elim conjE)
    assume h: "j < m" "fieldAt lr j \<noteq> fieldAt rr j" "\<forall>k<j. fieldAt lr k = fieldAt rr k"
    show "csvRowStep localCSV remoteCSV i st
          = st\<lparr>modifiedCount := modifiedCount st + 1,
               diff := diff st @ [modifiedFieldLine i j (fieldAt lr j) (fieldAt rr j)]\<rparr>"
      unfolding step using h by (intro fieldLoop_first) simp_all
  qed
  have c: "length (diff (csvRowStep localCSV remoteCSV i st)) \<le> length (diff st) + 1"
    unfolding step using fieldLoop_cases [of i m lr rr 0 st] by auto
  show "((\<forall>j < max (length (rowAt localCSV i)) (length (rowAt remoteCSV i)).
        fieldAt (rowAt localCSV i) j = fieldAt (rowAt remoteCSV i) j)
      \<longrightarrow> csvRowStep localCSV remoteCSV i st = st)
   \<and> (j < max (length (rowAt localCSV i)) (length (rowAt remoteCSV i))
        \<and> fieldAt (rowAt localCSV i) j \<noteq> fieldAt (rowAt remoteCSV i) j
        \<and> (\<forall>k < j. fieldAt (rowAt localCSV i) k = fieldAt (rowAt remoteCSV i) k)
      \<longrightarrow> csvRowStep localCSV remoteCSV i st
          = st\<lparr>modifiedCount := modifiedCount st + 1,
               diff := diff st
                 @ [''Modified field in row '' @ itoa (i + 1) @ '', col '' @ itoa (j + 1) @ '': ''
                    @ [CHR 0x27] @ fieldAt (rowAt localCSV i) j @ [CHR 0x27] @ '' '' @ arrow
                    @ '' '' @ [CHR 0x27] @ fieldAt (rowAt remoteCSV i) j @ [CHR 0x27] @ nl]\<rparr>)
   \<and> length (diff (csvRowStep localCSV remoteCSV i st)) \<le> length (diff st) + 1"
    using a b c unfolding lr_def rr_def m_def modifiedFieldLine_def by simp
qed

theorem rowStep_first_difference_witness:
  "csvRowStep [[''a'', ''b'', ''c'']] [[''a'', ''x'', ''y'']] 0 emptyState
     = emptyState\<lparr>modifiedCount := 1,
         diff := [''Modified field in row 1, col 2: '' @ [CHR 0x27] @ ''b'' @ [CHR 0x27] @ '' ''
                    @ arrow @ '' '' @ [CHR 0x27] @ ''x'' @ [CHR 0x27] @ nl]\<rparr>"
  using rowStep_first_difference [where localCSV = "[[''a'', ''b'', ''c'']]" and i = 0
      and remoteCSV = "[[''a'', ''x'', ''y'']]" and j = 1 and st = emptyState]
  by (simp add: rowAt_def fieldAt_def emptyState_def itoa.simps digit_def)

subsection \<open>C7: the two-row scenario\<close>

text \<open>
  C7. For the local table [["a","b"],["c","d"]] and the remote table [["a","x"],["c","d"]]
  the report is the header followed by the single line
  "Modified field in row 1, col 2: 'b' -> 'x'" (with the arrow U+2192).
\<close>

theorem rowDiffer_scenario:
  "rowDifferWrites ts fn [[''a'', ''b''], [''c'', ''d'']] [[''a'', ''x''], [''c'', ''d'']]
     = [headerLine ts fn,
        ''Modified field in row 1, col 2: '' @ [CHR 0x27] @ ''b'' @ [CHR 0x27] @ '' '' @ arrow
          @ '' '' @ [CHR 0x27] @ ''x'' @ [CHR 0x27] @ nl]
   \<and> rowDiffer ts fn [[''a'', ''b''], [''c'', ''d'']] [[''a'', ''x''], [''c'', ''d'']]
     = headerLine ts fn
        @ ''Modified field in row 1, col 2: '' @ [CHR 0x27] @ ''b'' @ [CHR 0x27] @ '' '' @ arrow
          @ '' '' @ [CHR 0x27] @ ''x'' @ [CHR 0x27] @ nl"
  by (simp add: rowDiffer_def builderString_def rowDifferWrites_def csvLoop.simps csvRowStep_def
      rowAt_def fieldAt_def fieldLoop.simps tally_def maxDiffChanges_def modifiedFieldLine_def
      itoa.simps digit_def)

subsection \<open>C9: lines that trim to nothing on both sides\<close>

text \<open>
  C9. At a line index where the local and the remote line both trim to the empty string,
  the body of the line loop leaves the counters and the builder as they are, whatever the
  untrimmed lines are.
\<close>

theorem blank_lines_invisible:
  "lineAt e (splitNl localText) i = [] \<and> lineAt e (splitNl remoteText) i = [] \<longrightarrow>
     textLineStep e (splitNl localText) (splitNl remoteText) section i st = st"
  by (simp add: textLineStep_def Let_def)

theorem blank_lines_invisible_witness:
  "textLineStep exampleEnv (splitNl '' '') (splitNl [CHR 0x20, CHR 0x09, CHR 0x20]) ''OCR'' 0
       emptyState = emptyState
   \<and> generateTextDiff exampleEnv '' '' [CHR 0x20, CHR 0x09, CHR 0x20] ''OCR''
       = ''No OCR changes identified'' @ nl"
proof -
  have l: "lineAt exampleEnv (splitNl '' '') 0 = []"
    and r: "lineAt exampleEnv (splitNl [CHR 0x20, CHR 0x09, CHR 0x20]) 0 = []"
    by code_simp+
  have "generateTextDiff exampleEnv '' '' [CHR 0x20, CHR 0x09, CHR 0x20] ''OCR''
       = ''No OCR changes identified'' @ nl"
    by code_simp
  then show ?thesis
    using blank_lines_invisible [of exampleEnv "'' ''" 0 "[CHR 0x20, CHR 0x09, CHR 0x20]"
        "''OCR''" emptyState] l r
    by simp
qed

subsection \<open>C10: a row with no field is taken for a missing row\<close>

text \<open>
  The rows before row \<open>i\<close> write at most \<open>i\<close> detail lines, so each of the first ten rows
  is reached by the loop.
\<close>

lemma rows_before_le: "length (concat (map (rowDetail l r) [0..<i])) \<le> i"
proof (induction i)
  case 0
  show ?case by simp
next
  case (Suc i)
  then show ?case using csvRowStep_detail(3) [of l r i] by simp
qed

text \<open>
  C10. Take a row index \<open>i\<close> that the loop reaches: the rows before it have written fewer
  than ten detail lines. If the local table has no row \<open>i\<close>, or has one with zero fields,
  and the remote row \<open>i\<close> has fields, the report is the header, the detail lines of the
  rows before \<open>i\<close>, the line "Added row i+1" with the remote row comma-joined, and the detail
  lines of the later rows up to the cap. If the remote table has no row \<open>i\<close>, or has one
  with zero fields, and the local row \<open>i\<close> has fields, the line is "Omitted row i+1" with
  the local row. The row that is present with zero fields and the row that is missing are
  not told apart.
\<close>

theorem zero_field_row_as_missing:
  "(length (concat (map (rowDetail localCSV remoteCSV) [0..<i])) < maxDiffChanges
      \<and> (length localCSV \<le> i \<or> localCSV ! i = [])
      \<and> i < length remoteCSV \<and> remoteCSV ! i \<noteq> [] \<longrightarrow>
      rowDifferWrites ts fn localCSV remoteCSV
        = headerLine ts fn # concat (map (rowDetail localCSV remoteCSV) [0..<i])
          @ [''Added row '' @ itoa (i + 1) @ '': '' @ joinComma (remoteCSV ! i) @ nl]
          @ take (maxDiffChanges
                    - length (concat (map (rowDetail localCSV remoteCSV) [0..<i])) - 1)
              (concat (map (rowDetail localCSV remoteCSV)
                 [i + 1..<max (length localCSV) (length remoteCSV)])))
   \<and> (length (concat (map (rowDetail localCSV remoteCSV) [0..<i])) < maxDiffChanges
      \<and> (length remoteCSV \<le> i \<or> remoteCSV ! i = [])
      \<and> i < length localCSV \<and> localCSV ! i \<noteq> [] \<longrightarrow>
      rowDifferWrites ts fn localCSV remoteCSV
        = headerLine ts fn # concat (map (rowDetail localCSV remoteCSV) [0..<i])
          @ [''Omitted row '' @ itoa (i + 1) @ '': '' @ joinComma (localCSV ! i) @ nl]
          @ take (maxDiffChanges
                    - length (concat (map (rowDetail localCSV remoteCSV) [0..<i])) - 1)
              (concat (map (rowDetail localCSV remoteCSV)
                 [i + 1..<max (length localCSV) (length remoteCSV)])))"
proof (intro conjI impI; elim conjE)
  assume reached: "length (concat (map (rowDetail localCSV remoteCSV) [0..<i])) < maxDiffChanges"
    and l: "length localCSV \<le> i \<or> localCSV ! i = []"
    and r: "i < length remoteCSV" "remoteCSV ! i \<noteq> []"
  have "rowAt localCSV i = []" using l by (auto simp: rowAt_def)
  then have "rowDetail localCSV remoteCSV i
      = [''Added row '' @ itoa (i + 1) @ '': '' @ joinComma (remoteCSV ! i) @ nl]"
    using r by (simp add: rowDetail_added addedRowLine_def rowAt_def)
  moreover have "i < max (length localCSV) (length remoteCSV)" using r by simp
  ultimately show "rowDifferWrites ts fn localCSV remoteCSV
        = headerLine ts fn # concat (map (rowDetail localCSV remoteCSV) [0..<i])
          @ [''Added row '' @ itoa (i + 1) @ '': '' @ joinComma (remoteCSV ! i) @ nl]
          @ take (maxDiffChanges
                    - length (concat (map (rowDetail localCSV remoteCSV) [0..<i])) - 1)
              (concat (map (rowDetail localCSV remoteCSV)
                 [i + 1..<max (length localCSV) (length remoteCSV)]))"
    using rowDifferWrites_at [OF _ reached] by simp
next
  assume reached: "length (concat (map (rowDetail localCSV remoteCSV) [0..<i])) < maxDiffChanges"
    and r: "length remoteCSV \<le> i \<or> remoteCSV ! i = []"
    and l: "i < length localCSV" "localCSV ! i \<noteq> []"
  have "rowAt remoteCSV i = []" using r by (auto simp: rowAt_def)
  moreover have "rowAt localCSV i \<noteq> []" using l by (simp add: rowAt_def)
  ultimately have "rowDetail localCSV remoteCSV i
      = [''Omitted row '' @ itoa (i + 1) @ '': '' @ joinComma (localCSV ! i) @ nl]"
    using l by (simp add: rowDetail_omitted omittedRowLine_def rowAt_def)
  moreover have "i < max (length localCSV) (length remoteCSV)" using l by simp
  ultimately show "rowDifferWrites ts fn localCSV remoteCSV
        = headerLine ts fn # concat (map (rowDetail localCSV remoteCSV) [0..<i])
          @ [''Omitted row '' @ itoa (i + 1) @ '': '' @ joinComma (localCSV ! i) @ nl]
          @ take (maxDiffChanges
                    - length (concat (map (rowDetail localCSV remoteCSV) [0..<i])) - 1)
              (concat (map (rowDetail localCSV remoteCSV)
                 [i + 1..<max (length localCSV) (length remoteCSV)]))"
    using rowDifferWrites_at [OF _ reached] by simp
qed

text \<open>
  Row 2 of the local table present with zero fields, and missing: the same report. The
  second and the fourth table pair are ones that the CSV reader can return.
\<close>

theorem zero_field_row_as_missing_witness:
  "rowDifferWrites exampleTs ''a.csv'' [[''h'', ''k''], []] [[''h'', ''k''], [''x'', ''y'']]
     = [headerLine exampleTs ''a.csv'', ''Added row 2: x,y'' @ nl]
   \<and> rowDifferWrites exampleTs ''a.csv'' [[''h'', ''k'']] [[''h'', ''k''], [''x'', ''y'']]
     = [headerLine exampleTs ''a.csv'', ''Added row 2: x,y'' @ nl]
   \<and> rowDifferWrites exampleTs ''a.csv'' [[''h'', ''k''], [''p'', ''q'']] [[''h'', ''k''], []]
     = [headerLine exampleTs ''a.csv'', ''Omitted row 2: p,q'' @ nl]
   \<and> rowDifferWrites exampleTs ''a.csv'' [[''h'', ''k''], [''p'', ''q'']] [[''h'', ''k'']]
     = [headerLine exampleTs ''a.csv'', ''Omitted row 2: p,q'' @ nl]"
proof -
  have pre: "concat (map (rowDetail [[''h'', ''k''], []] [[''h'', ''k''], [''x'', ''y'']]) [0..<1]) = []"
    "concat (map (rowDetail [[''h'', ''k'']] [[''h'', ''k''], [''x'', ''y'']]) [0..<1]) = []"
    "concat (map (rowDetail [[''h'', ''k''], [''p'', ''q'']] [[''h'', ''k''], []]) [0..<1]) = []"
    "concat (map (rowDetail [[''h'', ''k''], [''p'', ''q'']] [[''h'', ''k'']]) [0..<1]) = []"
    by code_simp+
  have two: "itoa (Suc (Suc 0)) = ''2''" by code_simp
  show ?thesis
    using zero_field_row_as_missing [where i = 1 and localCSV = "[[''h'', ''k''], []]"
        and remoteCSV = "[[''h'', ''k''], [''x'', ''y'']]" and ts = exampleTs and fn = "''a.csv''"]
      zero_field_row_as_missing [where i = 1 and localCSV = "[[''h'', ''k'']]"
        and remoteCSV = "[[''h'', ''k''], [''x'', ''y'']]" and ts = exampleTs and fn = "''a.csv''"]
      zero_field_row_as_missing [where i = 1 and localCSV = "[[''h'', ''k''], [''p'', ''q'']]"
        and remoteCSV = "[[''h'', ''k''], []]" and ts = exampleTs and fn = "''a.csv''"]
      zero_field_row_as_missing [where i = 1 and localCSV = "[[''h'', ''k''], [''p'', ''q'']]"
        and remoteCSV = "[[''h'', ''k'']]" and ts = exampleTs and fn = "''a.csv''"]
    unfolding pre
    by (simp add: two maxDiffChanges_def)
qed

subsection \<open>C8: the opaque differ reports the two fingerprints and nothing else\<close>

lemma length_hexEncode: "length (hexEncode bs) = 2 * length bs"
  by (induction bs) (simp_all add: hexEncode_def)

text \<open>
  C8. Whatever the local blob (the content of the local file) and the remote blob are, the
  report of \<^verbatim>\<open>generatePDFDiff\<close> is its header line followed by the single line
  "File Hash: Local=..., Remote=..." that carries both fingerprints in full (two
  hexadecimal digits for each byte of the digest); no line depends on the blobs otherwise.
\<close>

theorem opaqueDiffer_fingerprints_only:
  "readFile e localPath = Inr localBlob \<longrightarrow>
     generatePDFDiff e localPath remoteBlob ts filename
       = ''['' @ ts @ ''] PDF Diff for '' @ filename @ nl
         @ ''File Hash: Local='' @ sha256Hex e localBlob @ '', Remote='' @ sha256Hex e remoteBlob @ nl
     \<and> sublist (sha256Hex e localBlob) (generatePDFDiff e localPath remoteBlob ts filename)
     \<and> sublist (sha256Hex e remoteBlob) (generatePDFDiff e localPath remoteBlob ts filename)
     \<and> length (sha256Hex e localBlob) = 2 * length (sum256 e localBlob)
     \<and> length (sha256Hex e remoteBlob) = 2 * length (sum256 e remoteBlob)"
proof (intro impI)
  assume rd: "readFile e localPath = Inr localBlob"
  define h where "h = ''['' @ ts @ ''] PDF Diff for '' @ filename @ nl"
  have eq: "generatePDFDiff e localPath remoteBlob ts filename
      = h @ ''File Hash: Local='' @ sha256Hex e localBlob @ '', Remote=''
          @ sha256Hex e remoteBlob @ nl"
    using rd by (simp add: generatePDFDiff_def fileHashIgnoringError_def fileHash_def
        fileHashLine_def sha256Hex_def h_def)
  have l: "sublist (sha256Hex e localBlob) (generatePDFDiff e localPath remoteBlob ts filename)"
    unfolding eq sublist_def
    by (intro exI [of _ "h @ ''File Hash: Local=''"]
          exI [of _ "'', Remote='' @ sha256Hex e remoteBlob @ nl"]) simp
  have r: "sublist (sha256Hex e remoteBlob) (generatePDFDiff e localPath remoteBlob ts filename)"
    unfolding eq sublist_def
    by (intro exI [of _ "h @ ''File Hash: Local='' @ sha256Hex e localBlob @ '', Remote=''"]
          exI [of _ nl]) simp
  show "generatePDFDiff e localPath remoteBlob ts filename
       = ''['' @ ts @ ''] PDF Diff for '' @ filename @ nl
         @ ''File Hash: Local='' @ sha256Hex e localBlob @ '', Remote='' @ sha256Hex e remoteBlob @ nl
     \<and> sublist (sha256Hex e localBlob) (generatePDFDiff e localPath remoteBlob ts filename)
     \<and> sublist (sha256Hex e remoteBlob) (generatePDFDiff e localPath remoteBlob ts filename)
     \<and> length (sha256Hex e localBlob) = 2 * length (sum256 e localBlob)
     \<and> length (sha256Hex e remoteBlob) = 2 * length (sum256 e remoteBlob)"
    using eq l r by (simp add: h_def sha256Hex_def length_hexEncode)
qed

theorem opaqueDiffer_fingerprints_only_witness:
  "generatePDFDiff exampleEnv ''/w/b.pdf'' ''%PDF-1.7 changed'' exampleTs ''b.pdf''
     = ''['' @ exampleTs @ ''] PDF Diff for b.pdf'' @ nl
       @ ''File Hash: Local='' @ sha256Hex exampleEnv ''%PDF-1.4'' @ '', Remote=''
       @ sha256Hex exampleEnv ''%PDF-1.7 changed'' @ nl
   \<and> length (sha256Hex exampleEnv ''%PDF-1.7 changed'') = 64"
proof -
  have rd: "readFile exampleEnv ''/w/b.pdf'' = Inr ''%PDF-1.4''"
    by (simp add: exampleEnv_def)
  have len: "length (sum256 exampleEnv ''%PDF-1.7 changed'') = 32"
    by (simp add: exampleEnv_def)
  show ?thesis
    using opaqueDiffer_fingerprints_only [of exampleEnv "''/w/b.pdf''" "''%PDF-1.4''"
        "''%PDF-1.7 changed''" exampleTs "''b.pdf''"] rd len
    by simp
qed

subsection \<open>C3: every outcome combination gives a section\<close>

lemma generateTextDiff_nonempty: "generateTextDiff e a b s \<noteq> []"
proof -
  obtain ws where ws: "textDiffWrites e a b s = ws @ (if ws = [] then [noChangesLine s] else [])"
      "list_all (isTextDetail s) ws"
    using textDiffWrites_shape [of e a b s] by blast
  show ?thesis
  proof (cases ws)
    case Nil
    with ws(1) show ?thesis
      by (simp add: generateTextDiff_def builderString_def noChangesLine_def)
  next
    case (Cons w ws')
    with ws(2) have "isTextDetail s w" by simp
    then have "w \<noteq> []" by (auto simp: isTextDetail_def)
    with ws(1) Cons show ?thesis
      by (simp add: generateTextDiff_def builderString_def)
  qed
qed

lemma exifSection_nonempty:
  "exifSection e le re lerr rerr \<noteq> [] \<and> builderString (exifSection e le re lerr rerr) \<noteq> []"
  by (cases lerr; cases rerr)
     (simp_all add: exifSection_def builderString_def generateTextDiff_nonempty nl_def)

lemma ocrSection_nonempty:
  "ocrSection e lo ro lerr rerr \<noteq> [] \<and> builderString (ocrSection e lo ro lerr rerr) \<noteq> []"
  by (cases lerr; cases rerr)
     (simp_all add: ocrSection_def builderString_def generateTextDiff_nonempty nl_def)

text \<open>
  C3, as amended. For each of the four combinations of local and remote outcome, each
  channel gives a non-empty section of the report, and the report is the header, the
  fingerprint line, the EXIF section and the OCR section. When the local extraction
  succeeded with value \<open>v\<close> and the remote one failed with \<open>cause\<close>, the section is the
  line "Remote EXIF Error: cause" followed by the line
  "EXIF: Local present, remote extraction failed" (capital L, after the channel name), the
  line "Local EXIF:" and \<open>v\<close> in full on the lines after it; the OCR channel does the same
  with "Remote OCR Error:", "OCR: Local present, remote extraction failed" and
  "Local OCR Text:".
\<close>

theorem mediaReconciler_sections:
  "exifSection e le re lerr rerr \<noteq> [] \<and> builderString (exifSection e le re lerr rerr) \<noteq> []
   \<and> ocrSection e lo ro loerr roerr \<noteq> [] \<and> builderString (ocrSection e lo ro loerr roerr) \<noteq> []
   \<and> exifSection e v re None (Some cause)
       = [''Remote EXIF Error: '' @ cause @ nl,
          ''EXIF: Local present, remote extraction failed'' @ nl @ ''Local EXIF:'' @ nl @ v @ nl]
   \<and> ocrSection e v ro None (Some cause)
       = [''Remote OCR Error: '' @ cause @ nl,
          ''OCR: Local present, remote extraction failed'' @ nl @ ''Local OCR Text:'' @ nl @ v @ nl]
   \<and> generateImageDiff e localPath remoteData le re lo ro lerr rerr loerr roerr ts filename
       = ''['' @ ts @ ''] Image Diff for '' @ filename @ nl
         @ fileHashLine (fileHashIgnoringError e localPath) (sha256Hex e remoteData)
         @ builderString (exifSection e le re lerr rerr)
         @ builderString (ocrSection e lo ro loerr roerr)"
proof -
  have a: "exifSection e v re None (Some cause)
       = [''Remote EXIF Error: '' @ cause @ nl,
          ''EXIF: Local present, remote extraction failed'' @ nl @ ''Local EXIF:'' @ nl @ v @ nl]"
    by (simp add: exifSection_def)
  have b: "ocrSection e v ro None (Some cause)
       = [''Remote OCR Error: '' @ cause @ nl,
          ''OCR: Local present, remote extraction failed'' @ nl @ ''Local OCR Text:'' @ nl @ v @ nl]"
    by (simp add: ocrSection_def)
  have c: "generateImageDiff e localPath remoteData le re lo ro lerr rerr loerr roerr ts filename
       = ''['' @ ts @ ''] Image Diff for '' @ filename @ nl
         @ fileHashLine (fileHashIgnoringError e localPath) (sha256Hex e remoteData)
         @ builderString (exifSection e le re lerr rerr)
         @ builderString (ocrSection e lo ro loerr roerr)"
    by (simp add: generateImageDiff_def imageDiffWrites_def builderString_def)
  show ?thesis
    using exifSection_nonempty [of e le re lerr rerr] ocrSection_nonempty [of e lo ro loerr roerr]
      a b c
    by blast
qed

theorem mediaReconciler_sections_witness:
  "builderString (exifSection exampleEnv ''GPS: 45.0'' [] None (Some ''decode error''))
     = ''Remote EXIF Error: decode error'' @ nl
       @ ''EXIF: Local present, remote extraction failed'' @ nl
       @ ''Local EXIF:'' @ nl @ ''GPS: 45.0'' @ nl
   \<and> sublist ''Local present, remote extraction failed''
       (generateImageDiff exampleEnv ''/w/map.png'' ''PNG'' ''GPS: 45.0'' [] [] [] None
          (Some ''decode error'') None None exampleTs ''map.png'')
   \<and> sublist ''GPS: 45.0''
       (generateImageDiff exampleEnv ''/w/map.png'' ''PNG'' ''GPS: 45.0'' [] [] [] None
          (Some ''decode error'') None None exampleTs ''map.png'')
   \<and> sublist ''decode error''
       (generateImageDiff exampleEnv ''/w/map.png'' ''PNG'' ''GPS: 45.0'' [] [] [] None
          (Some ''decode error'') None None exampleTs ''map.png'')"
proof -
  have s: "exifSection exampleEnv ''GPS: 45.0'' [] None (Some ''decode error'')
       = [''Remote EXIF Error: '' @ ''decode error'' @ nl,
          ''EXIF: Local present, remote extraction failed'' @ nl @ ''Local EXIF:'' @ nl
            @ ''GPS: 45.0'' @ nl]"
    using mediaReconciler_sections [of exampleEnv "[]" "[]" None None "[]" "[]" None None
        "''GPS: 45.0''" "''decode error''"]
    by blast
  have 1: "sublist ''Local present, remote extraction failed''
       (generateImageDiff exampleEnv ''/w/map.png'' ''PNG'' ''GPS: 45.0'' [] [] [] None
          (Some ''decode error'') None None exampleTs ''map.png'')"
    by code_simp
  have 2: "sublist ''GPS: 45.0''
       (generateImageDiff exampleEnv ''/w/map.png'' ''PNG'' ''GPS: 45.0'' [] [] [] None
          (Some ''decode error'') None None exampleTs ''map.png'')"
    by code_simp
  have 3: "sublist ''decode error''
       (generateImageDiff exampleEnv ''/w/map.png'' ''PNG'' ''GPS: 45.0'' [] [] [] None
          (Some ''decode error'') None None exampleTs ''map.png'')"
    by code_simp
  show ?thesis using 1 2 3 by (simp add: s builderString_def)
qed

text \<open>
  C3 as stated names the label "local present, remote extraction failed": on the example of
  the specification (local "GPS: 45.0", remote failure "decode error") the report holds no
  such text, the label being written with a capital L.
\<close>

theorem mediaReconciler_label_counterexample:
  "\<not> sublist ''local present, remote extraction failed''
       (generateImageDiff exampleEnv ''/w/map.png'' ''PNG'' ''GPS: 45.0'' [] [] [] None
          (Some ''decode error'') None None exampleTs ''map.png'')"
  by code_simp

subsection \<open>C2: what the truncation bounds\<close>







subsection \<open>C1: what the unified hash is computed from\<close>

text \<open>
  Every path of the loop body that ends in \<^verbatim>\<open>continue\<close> leaves the running concatenation
  as it was: a failed request or fetch, a status other than 200, an unreadable body and an
  unreadable local file all contribute nothing, whatever was assigned to \<^verbatim>\<open>rawHash\<close>.
\<close>

lemma processItem_unifiedBuilder:
  "unifiedBuilder (processItem e ts dir f cs)
     = unifiedBuilder cs
       @ (case httpGet e (rawURL e f) of
            Response code (Inr body) \<Rightarrow>
              (if code = 200
               then (case fileHash e (filepathJoin e dir f) of
                       Inl err \<Rightarrow> []
                     | Inr localHash \<Rightarrow> sha256Hex e body)
               else [])
          | _ \<Rightarrow> [])"
  by (simp add: processItem_def Let_def split: fetch.splits sum.splits)

text \<open>
  C1, on the failing input. In the example environment the directory holds \<open>a.csv\<close>,
  fetched with status 200, and \<open>b.pdf\<close>, answered with HTTP 404. The text that is hashed
  into the unified hash is the fingerprint of the remote \<open>a.csv\<close> alone: the sentinel
  \<^verbatim>\<open>zeroHash\<close> for \<open>b.pdf\<close> is not appended, although the "Remote unavailable" report for
  it is logged.
\<close>

theorem cycle_unavailable_item_contributes_nothing:
  "map_option unifiedInput (runCycle exampleEnv exampleTs ''/w'')
     = Some (sha256Hex exampleEnv (''x'' @ nl))
   \<and> map_option unifiedInput (runCycle exampleEnv exampleTs ''/w'')
     \<noteq> Some (sha256Hex exampleEnv (''x'' @ nl) @ zeroHash)
   \<and> map_option unifiedHash (runCycle exampleEnv exampleTs ''/w'')
     = Some (sha256Hex exampleEnv (sha256Hex exampleEnv (''x'' @ nl)))
   \<and> map_option (last \<circ> loggedReports) (runCycle exampleEnv exampleTs ''/w'')
     = Some (unavailableReport exampleTs ''b.pdf'' 404 (exampleURL ''b.pdf''))"
proof -
  have 1: "map_option unifiedInput (runCycle exampleEnv exampleTs ''/w'')
     = Some (sha256Hex exampleEnv (''x'' @ nl))"
    by code_simp
  have 2: "map_option unifiedHash (runCycle exampleEnv exampleTs ''/w'')
     = Some (sha256Hex exampleEnv (sha256Hex exampleEnv (''x'' @ nl)))"
    by code_simp
  have 3: "map_option (last \<circ> loggedReports) (runCycle exampleEnv exampleTs ''/w'')
     = Some (unavailableReport exampleTs ''b.pdf'' 404 (exampleURL ''b.pdf''))"
    by code_simp
  have 4: "zeroHash \<noteq> []" by (simp add: zeroHash_def)
  have 5: "map_option unifiedInput (runCycle exampleEnv exampleTs ''/w'')
     \<noteq> Some (sha256Hex exampleEnv (''x'' @ nl) @ zeroHash)"
    unfolding 1 using 4 by simp
  show ?thesis by (intro conjI) (rule 1, rule 5, rule 2, rule 3)
qed

end
